theory Spec2Isabelle
  imports Main "HOL-Library.AList"
begin

section \<open>JSON values and the JavaScript operations the server applies to them\<close>

text \<open>
  The server stores whatever \<^verbatim>\<open>req.json()\<close> resolves to: the cast
  \<^verbatim>\<open>config as QueryConfig\<close> checks nothing at run time, so the stored configuration
  is any JSON value. Numbers are kept as integers (only their truthiness is used), and the list of
  an object holds its members in the order of the text; a repeated name takes its last value, as
  \<^verbatim>\<open>JSON.parse\<close> has it.
\<close>

datatype json =
    JNull
  | JBool bool
  | JNum int
  | JStr string
  | JArr "json list"
  | JObj "(string \<times> json) list"

text \<open>
  What a \<^verbatim>\<open>throw\<close> carries. \<open>NullPropertyMessage k\<close> stands for the text of the
  \<^verbatim>\<open>TypeError\<close> the engine raises when property \<open>k\<close> of \<^verbatim>\<open>null\<close> is read.
\<close>

datatype errinfo = Message string | NullPropertyMessage string

datatype thrown = Error errinfo | NonError

text \<open>\<^verbatim>\<open>error instanceof Error ? error.message : 'Unknown error'\<close>\<close>

fun error_message :: "thrown \<Rightarrow> errinfo" where
  "error_message (Error m) = m"
| "error_message NonError = Message ''Unknown error''"

text \<open>
  \<^verbatim>\<open>v.k\<close> for the two names the server reads, \<^verbatim>\<open>clientId\<close> and
  \<^verbatim>\<open>anthropicApiKey\<close>: neither is defined on a prototype, so the read finds an own
  property of an object or \<^verbatim>\<open>undefined\<close> (\<open>None\<close>); on \<^verbatim>\<open>null\<close> it throws.
\<close>

fun get_property :: "json \<Rightarrow> string \<Rightarrow> thrown + json option" where
  "get_property JNull k = Inl (Error (NullPropertyMessage k))"
| "get_property (JObj kvs) k = Inr (map_of (rev kvs) k)"
| "get_property (JBool b) k = Inr None"
| "get_property (JNum n) k = Inr None"
| "get_property (JStr cs) k = Inr None"
| "get_property (JArr vs) k = Inr None"

text \<open>JavaScript truthiness of a JSON value.\<close>

fun truthy :: "json \<Rightarrow> bool" where
  "truthy JNull = False"
| "truthy (JBool b) = b"
| "truthy (JNum n) = (n \<noteq> 0)"
| "truthy (JStr cs) = (cs \<noteq> [])"
| "truthy (JArr vs) = True"
| "truthy (JObj kvs) = True"

text \<open>The decimal name of an array index.\<close>

fun index_key :: "nat \<Rightarrow> string" where
  "index_key n =
     (if n < 10 then [char_of (48 + n)]
      else index_key (n div 10) @ [char_of (48 + n mod 10)])"

declare index_key.simps [simp del]

text \<open>
  The own enumerable properties an object spread \<^verbatim>\<open>{...v}\<close> copies: the members of an
  object, the elements of an array and the characters of a string under their indices (a
  character of the model stands for one code unit of the string), nothing for \<^verbatim>\<open>null\<close>,
  a boolean or a number.
\<close>

fun own_properties :: "json \<Rightarrow> (string \<times> json) list" where
  "own_properties (JObj kvs) = kvs"
| "own_properties (JArr vs) = zip (map index_key [0..<length vs]) vs"
| "own_properties (JStr cs) = zip (map index_key [0..<length cs]) (map (\<lambda>c. JStr [c]) cs)"
| "own_properties JNull = []"
| "own_properties (JBool b) = []"
| "own_properties (JNum n) = []"

text \<open>
  \<^verbatim>\<open>{...tgt, ...src}\<close>: the properties of \<open>src\<close> are defined on the object one after
  the other; a name already there keeps its place and takes the new value.
\<close>

definition js_spread :: "(string \<times> 'v) list \<Rightarrow> (string \<times> 'v) list \<Rightarrow> (string \<times> 'v) list" where
  "js_spread src tgt = fold (\<lambda>(k, v). AList.update k v) src tgt"

section \<open>The options of the agent session\<close>

text \<open>A value of the options object: JSON data, or the \<^verbatim>\<open>stderr\<close> callback.\<close>

datatype optval = Json json | StderrCallback

text \<open>The literal part of \<^verbatim>\<open>options\<close> in \<^verbatim>\<open>processMessages\<close>, before the spreads.\<close>

definition baseline :: "string \<Rightarrow> (string \<times> optval) list" where
  "baseline cwd =
     [(''permissionMode'', Json (JStr ''bypassPermissions'')),
      (''allowDangerouslySkipPermissions'', Json (JBool True)),
      (''settingSources'', Json (JArr [JStr ''project''])),
      (''cwd'', Json (JStr cwd)),
      (''includePartialMessages'', Json (JBool True)),
      (''stderr'', StderrCallback)]"

text \<open>\<^verbatim>\<open>{ ...process.env, ANTHROPIC_API_KEY: key }\<close>\<close>

definition env_override :: "(string \<times> string) list \<Rightarrow> json \<Rightarrow> (string \<times> json) list" where
  "env_override penv key =
     js_spread [(''ANTHROPIC_API_KEY'', key)] (js_spread (map (\<lambda>(n, v). (n, JStr v)) penv) [])"

text \<open>
  \<^verbatim>\<open>queryConfig.anthropicApiKey && { env: { ...process.env, ANTHROPIC_API_KEY: key } }\<close>,
  as the spread sees it: a falsy key spreads nothing.
\<close>

definition credential_override :: "(string \<times> string) list \<Rightarrow> json option \<Rightarrow> (string \<times> optval) list" where
  "credential_override penv key =
     (case key of
        None \<Rightarrow> []
      | Some k \<Rightarrow> if truthy k then [(''env'', Json (JObj (env_override penv k)))] else [])"

text \<open>
  The object literal \<^verbatim>\<open>options\<close>: the baseline, then \<^verbatim>\<open>...queryConfig\<close>, then the
  credential override. Reading \<^verbatim>\<open>queryConfig.anthropicApiKey\<close> throws when the stored
  configuration is \<^verbatim>\<open>null\<close>.
\<close>

definition options :: "string \<Rightarrow> (string \<times> string) list \<Rightarrow> json \<Rightarrow> thrown + (string \<times> optval) list" where
  "options cwd penv cfg =
     (let o1 = js_spread (map (\<lambda>(k, v). (k, Json v)) (own_properties cfg)) (baseline cwd)
      in case get_property cfg ''anthropicApiKey'' of
           Inl e \<Rightarrow> Inl e
         | Inr key \<Rightarrow> Inr (js_spread (credential_override penv key) o1))"

section \<open>The server state\<close>

type_synonym ws = nat

datatype WSOutputMessage =
    WS_connected
  | WS_info string
  | WS_sdk_message json
  | WS_error errinfo

text \<open>What the server does to a socket: \<^verbatim>\<open>ws.send(JSON.stringify(output))\<close> and \<^verbatim>\<open>ws.close()\<close>.\<close>

datatype effect = Send ws WSOutputMessage | Close ws

text \<open>
  The four module variables (\<^verbatim>\<open>activeConnection\<close>, \<^verbatim>\<open>messageQueue\<close>,
  \<^verbatim>\<open>activeStream\<close>, \<^verbatim>\<open>queryConfig\<close>), the two values computed when the module
  loads, and the surroundings the handlers act on:
  \<^item> the text of \<^verbatim>\<open>CLIENT_ID_FILE\<close> (\<open>None\<close>: there is no file);
  \<^item> the writes to that file that \<^verbatim>\<open>Bun.write\<close> has been called for and the file system has
    not performed yet (\<open>issued\<close>, with the data of each), and the writes it has performed whose
    handler has not been resumed yet (\<open>settled\<close>, with the data and whether the write succeeded);
  \<^item> the sends and closes in the order they happened;
  \<^item> the options of every \<^verbatim>\<open>query\<close> call, and what a call of \<^verbatim>\<open>query\<close> would throw
    at this moment (\<open>query_throws\<close>, \<open>None\<close> when it would return its stream);
  \<^item> whether the \<^verbatim>\<open>for await\<close> loop of \<^verbatim>\<open>processMessages\<close> is waiting on the stream;
  \<^item> the messages \<^verbatim>\<open>generateMessages\<close> has yielded to the runtime, and the interrupts sent
    to the stream.
\<close>

record server =
  activeConnection :: "ws option"
  messageQueue :: "json list"
  activeStream :: "nat option"
  queryConfig :: json
  workspaceDirectory :: string
  process_env :: "(string \<times> string) list"
  client_id_file :: "string option"
  issued :: "json list"
  settled :: "(json \<times> bool) list"
  wire :: "effect list"
  launched :: "(string \<times> optval) list list"
  query_throws :: "thrown option"
  forwarding :: bool
  yielded :: "json list"
  interrupts :: nat

text \<open>
  The state when the module has loaded: \<open>file\<close> is what an earlier process left in the file;
  no write is under way, and \<^verbatim>\<open>query\<close> is in working order.
\<close>

definition init :: "string \<Rightarrow> (string \<times> string) list \<Rightarrow> string option \<Rightarrow> server" where
  "init cwd penv file =
     \<lparr>activeConnection = None, messageQueue = [], activeStream = None, queryConfig = JObj [],
      workspaceDirectory = cwd, process_env = penv, client_id_file = file, issued = [],
      settled = [], wire = [], launched = [], query_throws = None, forwarding = False,
      yielded = [], interrupts = 0\<rparr>"

definition send :: "ws \<Rightarrow> WSOutputMessage \<Rightarrow> server \<Rightarrow> server" where
  "send c m s = s\<lparr>wire := wire s @ [Send c m]\<rparr>"

definition close :: "ws \<Rightarrow> server \<Rightarrow> server" where
  "close c s = s\<lparr>wire := wire s @ [Close c]\<rparr>"

section \<open>The agent session: \<^verbatim>\<open>processMessages\<close>\<close>

text \<open>The \<^verbatim>\<open>catch\<close> block: the error goes to the active connection, if there is one.\<close>

definition catch_error :: "thrown \<Rightarrow> server \<Rightarrow> server" where
  "catch_error e s =
     (case activeConnection s of
        None \<Rightarrow> s
      | Some c \<Rightarrow> send c (WS_error (error_message e)) s)"

text \<open>
  \<^verbatim>\<open>processMessages\<close> up to its first suspension: it builds the options, calls
  \<^verbatim>\<open>query\<close> with them and, when the call returns, assigns the stream to
  \<^verbatim>\<open>activeStream\<close> (here the number of the call) and starts to iterate it. All of this is
  inside the \<^verbatim>\<open>try\<close>: an error while the options are built, and an error thrown by the call
  of \<^verbatim>\<open>query\<close> itself, are caught before \<^verbatim>\<open>activeStream\<close> is assigned. What the
  runtime raises later arrives as a \<open>StreamThrow\<close> event.
\<close>

definition processMessages :: "server \<Rightarrow> server" where
  "processMessages s =
     (case options (workspaceDirectory s) (process_env s) (queryConfig s) of
        Inl e \<Rightarrow> catch_error e s
      | Inr opts \<Rightarrow>
          (let s1 = s\<lparr>launched := launched s @ [opts]\<rparr>
           in case query_throws s1 of
                Some e \<Rightarrow> catch_error e s1
              | None \<Rightarrow> s1\<lparr>activeStream := Some (length (launched s)), forwarding := True\<rparr>))"

text \<open>The \<^verbatim>\<open>stderr\<close> callback of the options.\<close>

definition stderr :: "string \<Rightarrow> server \<Rightarrow> server" where
  "stderr data s =
     (case activeConnection s of
        None \<Rightarrow> s
      | Some c \<Rightarrow> send c (WS_info data) s)"

text \<open>The body of the \<^verbatim>\<open>for await\<close> loop, for one message of the stream.\<close>

definition forward :: "json \<Rightarrow> server \<Rightarrow> server" where
  "forward message s =
     (case activeConnection s of
        None \<Rightarrow> s
      | Some c \<Rightarrow> send c (WS_sdk_message message) s)"

section \<open>The message producer: \<^verbatim>\<open>generateMessages\<close>\<close>

text \<open>
  The generator is resumed by the runtime asking for the next message. Wherever it was suspended
  (at its start, at the \<^verbatim>\<open>yield\<close> or in the 10 ms sleep), the next thing it runs is the
  test \<^verbatim>\<open>messageQueue.length > 0\<close>: with a message queued it shifts the head off and
  yields it; with none it goes to sleep and changes nothing.
\<close>

definition generateMessages :: "server \<Rightarrow> server" where
  "generateMessages s =
     (case messageQueue s of
        [] \<Rightarrow> s
      | message # rest \<Rightarrow> s\<lparr>messageQueue := rest, yielded := yielded s @ [message]\<rparr>)"

section \<open>The WebSocket handlers\<close>

definition websocket_open :: "ws \<Rightarrow> server \<Rightarrow> server" where
  "websocket_open c s =
     (case activeConnection s of
        Some a \<Rightarrow>
          close c (send c (WS_error (Message ''Server already has an active connection'')) s)
      | None \<Rightarrow>
          (let s1 = s\<lparr>activeConnection := Some c\<rparr>;
               s2 = (if activeStream s1 = None then processMessages s1 else s1)
           in send c WS_connected s2))"

definition websocket_close :: "ws \<Rightarrow> server \<Rightarrow> server" where
  "websocket_close c s =
     (if activeConnection s = Some c then s\<lparr>activeConnection := None\<rparr> else s)"

text \<open>
  Modelled from the spec: \<^verbatim>\<open>handleMessage\<close> (module \<^verbatim>\<open>./message-handler\<close>) is not
  among the sources. Section 4.3 of the specification: a user message is appended to the tail of
  the inbound queue, an interrupt goes to the handle of the agent session, a malformed payload is
  dropped.
\<close>

datatype WSInputMessage = User_message json | Interrupt | Malformed

definition handleMessage :: "ws \<Rightarrow> WSInputMessage \<Rightarrow> server \<Rightarrow> server" where
  "handleMessage c m s =
     (case m of
        User_message u \<Rightarrow> s\<lparr>messageQueue := messageQueue s @ [u]\<rparr>
      | Interrupt \<Rightarrow>
          (case activeStream s of
             None \<Rightarrow> s
           | Some h \<Rightarrow> s\<lparr>interrupts := interrupts s + 1\<rparr>)
      | Malformed \<Rightarrow> s)"

section \<open>The control endpoint: \<^verbatim>\<open>fetch\<close>\<close>

text \<open>
  A request: \<open>body\<close> is what \<^verbatim>\<open>req.json()\<close> resolves to, \<open>None\<close> when it rejects;
  \<open>upgradable\<close> says whether \<^verbatim>\<open>server.upgrade(req)\<close> succeeds.
\<close>

record request =
  pathname :: string
  http_method :: string
  body :: "json option"
  upgradable :: bool

datatype response = JsonResponse nat json | TextResponse nat string | Upgraded

text \<open>
  What the file system makes of a write. \<open>Written txt\<close>: the write succeeds; a string is
  written as it is, and \<open>txt\<close> is the text the runtime renders any other datum to (the source
  does not say how). \<open>Failed left\<close>: the write fails, and \<open>left\<close> is what it leaves of the
  file, which may be anything.
\<close>

datatype write_result = Written string | Failed "string option"

fun succeeded :: "write_result \<Rightarrow> bool" where
  "succeeded (Written txt) = True"
| "succeeded (Failed left) = False"

fun file_after :: "json \<Rightarrow> write_result \<Rightarrow> string option" where
  "file_after data (Failed left) = left"
| "file_after (JStr cs) (Written txt) = Some cs"
| "file_after JNull (Written txt) = Some txt"
| "file_after (JBool b) (Written txt) = Some txt"
| "file_after (JNum n) (Written txt) = Some txt"
| "file_after (JArr vs) (Written txt) = Some txt"
| "file_after (JObj kvs) (Written txt) = Some txt"

text \<open>
  \<^verbatim>\<open>Bun.write(CLIENT_ID_FILE, data)\<close>: the call hands the write to the file system and
  returns a promise at once.
\<close>

definition Bun_write :: "json \<Rightarrow> server \<Rightarrow> server" where
  "Bun_write data s = s\<lparr>issued := data # issued s\<rparr>"

text \<open>
  The file system performs a write that was issued: the file changes, and the promise of the
  write is settled. The handler that awaits it has not run yet.
\<close>

definition write_lands :: "json \<Rightarrow> write_result \<Rightarrow> server \<Rightarrow> server" where
  "write_lands data r s =
     (if data \<in> set (issued s)
      then s\<lparr>issued := remove1 data (issued s),
             client_id_file := file_after data r,
             settled := (data, succeeded r) # settled s\<rparr>
      else s)"

text \<open>How far a handler has come: it has its response, or it is suspended at the \<^verbatim>\<open>await\<close> of a write.\<close>

datatype progress = Responded response | Awaiting json

text \<open>\<^verbatim>\<open>Response.json({ success: true, config: queryConfig })\<close>, with the value the module variable has when the line runs.\<close>

definition success_response :: "server \<Rightarrow> response" where
  "success_response s =
     JsonResponse 200 (JObj [(''success'', JBool True), (''config'', queryConfig s)])"

definition invalid_json :: response where
  "invalid_json = JsonResponse 400 (JObj [(''error'', JStr ''Invalid JSON'')])"

text \<open>
  The callback of \<^verbatim>\<open>req.json().then\<close>, up to its response or to the \<^verbatim>\<open>await\<close>. It
  assigns \<^verbatim>\<open>queryConfig\<close> first; what it throws afterwards does not undo the assignment, so
  the state comes back with either result.
\<close>

definition config_then :: "json \<Rightarrow> server \<Rightarrow> server \<times> (thrown + progress)" where
  "config_then config s =
     (let s1 = s\<lparr>queryConfig := config\<rparr>
      in case get_property (queryConfig s1) ''clientId'' of
           Inl e \<Rightarrow> (s1, Inl e)
         | Inr None \<Rightarrow> (s1, Inr (Responded (success_response s1)))
         | Inr (Some cid) \<Rightarrow>
             if truthy cid then (Bun_write cid s1, Inr (Awaiting cid))
             else (s1, Inr (Responded (success_response s1))))"

text \<open>
  The rest of the callback, run when the awaited write has settled: after a write that succeeded
  it answers with \<^verbatim>\<open>queryConfig\<close> as the variable is by then; the rejection of a write that
  failed goes to the \<^verbatim>\<open>.catch\<close>.
\<close>

definition config_continue :: "bool \<Rightarrow> server \<Rightarrow> response" where
  "config_continue ok s = (if ok then success_response s else invalid_json)"

text \<open>The handler that awaits the settled write of \<open>data\<close> is resumed and gives its response.\<close>

definition resume :: "json \<Rightarrow> bool \<Rightarrow> server \<Rightarrow> server \<times> response" where
  "resume data ok s =
     (let s' = s\<lparr>settled := remove1 (data, ok) (settled s)\<rparr>
      in (s', config_continue ok s'))"

text \<open>
  The handler of a request, up to its response or its suspension. The \<^verbatim>\<open>.catch\<close> turns a
  rejected \<^verbatim>\<open>req.json()\<close> and anything the callback throws into the 400 response.
\<close>

definition fetch_begin :: "request \<Rightarrow> server \<Rightarrow> server \<times> progress" where
  "fetch_begin req s =
     (if pathname req = ''/config'' \<and> http_method req = ''POST'' then
        (case body req of
           None \<Rightarrow> (s, Responded invalid_json)
         | Some config \<Rightarrow>
             (case config_then config s of
                (s', Inl e) \<Rightarrow> (s', Responded invalid_json)
              | (s', Inr p) \<Rightarrow> (s', p)))
      else if pathname req = ''/config'' \<and> http_method req = ''GET'' then
        (s, Responded (JsonResponse 200 (JObj [(''config'', queryConfig s)])))
      else if pathname req = ''/ws'' \<and> upgradable req then (s, Responded Upgraded)
      else (s, Responded (TextResponse 404 ''Not Found'')))"

text \<open>
  A request served on its own: when the handler suspends, its write is performed with the result
  \<open>ok\<close> and the handler is resumed before anything else happens. This is the call that no
  other request and no other write overlaps.
\<close>

definition fetch :: "write_result \<Rightarrow> request \<Rightarrow> server \<Rightarrow> server \<times> response" where
  "fetch ok req s =
     (case fetch_begin req s of
        (s1, Responded r) \<Rightarrow> (s1, r)
      | (s1, Awaiting data) \<Rightarrow> resume data (succeeded ok) (write_lands data ok s1))"

section \<open>Events and runs\<close>

text \<open>
  Everything that makes the server run:
  \<^item> a request served on its own (\<open>Http\<close>), or the steps of a request one by one: the handler
    runs to its response or its suspension (\<open>HttpBegin\<close>), the file system performs an issued
    write (\<open>WriteLands\<close>), the handler awaiting a settled write is resumed (\<open>HttpResume\<close>);
    any other event may come between these steps;
  \<^item> the three socket events;
  \<^item> the agent runtime calling the \<^verbatim>\<open>stderr\<close> callback, delivering or raising in the
    stream, ending it, or asking the producer for a message; the runtime acts only on a session
    that was launched, and the stream only feeds a loop that still iterates;
  \<^item> a change of what a call of \<^verbatim>\<open>query\<close> would throw (\<open>QueryFault\<close>).
\<close>

datatype event =
    Http write_result request
  | HttpBegin request
  | WriteLands json write_result
  | HttpResume json bool
  | WsOpen ws
  | WsMessage ws WSInputMessage
  | WsClose ws
  | Stderr string
  | StreamMessage json
  | StreamThrow thrown
  | StreamEnd
  | ProducerPoll
  | QueryFault "thrown option"

fun step :: "server \<Rightarrow> event \<Rightarrow> server" where
  "step s (Http ok req) = fst (fetch ok req s)"
| "step s (HttpBegin req) = fst (fetch_begin req s)"
| "step s (WriteLands data r) = write_lands data r s"
| "step s (HttpResume data ok) =
     (if (data, ok) \<in> set (settled s) then fst (resume data ok s) else s)"
| "step s (WsOpen c) = websocket_open c s"
| "step s (WsMessage c m) = handleMessage c m s"
| "step s (WsClose c) = websocket_close c s"
| "step s (Stderr data) = (if activeStream s = None then s else stderr data s)"
| "step s (StreamMessage message) = (if forwarding s then forward message s else s)"
| "step s (StreamThrow e) = (if forwarding s then catch_error e (s\<lparr>forwarding := False\<rparr>) else s)"
| "step s StreamEnd = s\<lparr>forwarding := False\<rparr>"
| "step s ProducerPoll = (if activeStream s = None then s else generateMessages s)"
| "step s (QueryFault f) = s\<lparr>query_throws := f\<rparr>"

definition run :: "server \<Rightarrow> event list \<Rightarrow> server" where
  "run s evs = foldl step s evs"

section \<open>The operations the specification names\<close>

text \<open>
  \<open>setConfiguration\<close> is \<^verbatim>\<open>POST /config\<close> with a body that parses, \<open>getConfiguration\<close>
  is \<^verbatim>\<open>GET /config\<close>; both are \<open>fetch\<close> at the request, the call served on its own
  (\<^verbatim>\<open>GET\<close> writes nothing, so the result of a write plays no part in it).
\<close>

definition post_config :: "json option \<Rightarrow> request" where
  "post_config b = \<lparr>pathname = ''/config'', http_method = ''POST'', body = b, upgradable = False\<rparr>"

definition get_config :: request where
  "get_config = \<lparr>pathname = ''/config'', http_method = ''GET'', body = None, upgradable = False\<rparr>"

definition setConfiguration :: "write_result \<Rightarrow> json \<Rightarrow> server \<Rightarrow> server \<times> response" where
  "setConfiguration ok config s = fetch ok (post_config (Some config)) s"

definition getConfiguration :: "server \<Rightarrow> response" where
  "getConfiguration s = snd (fetch (Written '''') get_config s)"

text \<open>The user messages a run appends to the inbound queue, in the order of their arrival.\<close>

fun enqueued :: "event list \<Rightarrow> json list" where
  "enqueued [] = []"
| "enqueued (WsMessage c (User_message u) # evs) = u # enqueued evs"
| "enqueued (ev # evs) = enqueued evs"

text \<open>
  The connections that are active in the sense of the specification after a run: those whose open
  was answered with \<open>connected\<close> and whose close event has not come since. \<open>acknowledges\<close>
  reads the answer off the messages the open handler sends.
\<close>

definition acknowledges :: "server \<Rightarrow> ws \<Rightarrow> bool" where
  "acknowledges s c =
     (Send c WS_connected \<in> set (drop (length (wire s)) (wire (websocket_open c s))))"

fun attached :: "ws set \<Rightarrow> server \<Rightarrow> event list \<Rightarrow> ws set" where
  "attached A s [] = A"
| "attached A s (WsOpen c # evs) =
     attached (if acknowledges s c then insert c A else A) (step s (WsOpen c)) evs"
| "attached A s (WsClose c # evs) = attached (A - {c}) (step s (WsClose c)) evs"
| "attached A s (ev # evs) = attached A (step s ev) evs"

text \<open>
  The merge rule in the words of the specification (section 4.2): the fields of the stored
  configuration over the baseline, the credential override over both. Each layer is a map from
  option names to values, and \<open>++\<close> lets the right-hand layer win.
\<close>

definition stored_configuration :: "json \<Rightarrow> string \<Rightarrow> optval option" where
  "stored_configuration cfg = map_option Json \<circ> map_of (rev (own_properties cfg))"

definition credential :: "(string \<times> string) list \<Rightarrow> json \<Rightarrow> string \<Rightarrow> optval option" where
  "credential penv cfg =
     (case get_property cfg ''anthropicApiKey'' of
        Inr (Some k) \<Rightarrow>
          if truthy k then [''env'' \<mapsto> Json (JObj (env_override penv k))] else Map.empty
      | _ \<Rightarrow> Map.empty)"

definition effective_configuration ::
  "string \<Rightarrow> (string \<times> string) list \<Rightarrow> json \<Rightarrow> string \<Rightarrow> optval option" where
  "effective_configuration cwd penv cfg =
     map_of (baseline cwd) ++ stored_configuration cfg ++ credential penv cfg"

section \<open>Basic facts\<close>

lemma run_Nil [simp]: "run s [] = s"
  by (simp add: run_def)

lemma run_Cons [simp]: "run s (ev # evs) = run (step s ev) evs"
  by (simp add: run_def)

lemma run_append: "run s (evs @ evs') = run (run s evs) evs'"
  by (simp add: run_def)

text \<open>What a request does to the state, step by step and served on its own.\<close>

lemma fst_config_then:
  "fst (config_then c s) =
     (case get_property c ''clientId'' of
        Inr (Some cid) \<Rightarrow>
          if truthy cid then s\<lparr>queryConfig := c, issued := cid # issued s\<rparr>
          else s\<lparr>queryConfig := c\<rparr>
      | _ \<Rightarrow> s\<lparr>queryConfig := c\<rparr>)"
  by (simp add: config_then_def Let_def Bun_write_def split: sum.splits option.splits)

lemma fst_fetch_begin:
  "fst (fetch_begin req s) =
     (if pathname req = ''/config'' \<and> http_method req = ''POST''
      then (case body req of None \<Rightarrow> s | Some c \<Rightarrow> fst (config_then c s))
      else s)"
  by (auto simp: fetch_begin_def split: prod.splits sum.splits option.splits)

lemma fst_fetch:
  "fst (fetch ok req s) =
     (if pathname req = ''/config'' \<and> http_method req = ''POST''
      then (case body req of
              None \<Rightarrow> s
            | Some c \<Rightarrow>
               (case get_property c ''clientId'' of
                  Inr (Some cid) \<Rightarrow>
                    if truthy cid then s\<lparr>queryConfig := c, client_id_file := file_after cid ok\<rparr>
                    else s\<lparr>queryConfig := c\<rparr>
                | _ \<Rightarrow> s\<lparr>queryConfig := c\<rparr>))
      else s)"
  by (auto simp: fetch_def fetch_begin_def config_then_def Bun_write_def write_lands_def
        resume_def Let_def split: prod.splits sum.splits option.splits)

lemma fetch_fields:
  "activeConnection (fst (fetch ok req s)) = activeConnection s"
  "messageQueue (fst (fetch ok req s)) = messageQueue s"
  "activeStream (fst (fetch ok req s)) = activeStream s"
  "wire (fst (fetch ok req s)) = wire s"
  "launched (fst (fetch ok req s)) = launched s"
  "forwarding (fst (fetch ok req s)) = forwarding s"
  "yielded (fst (fetch ok req s)) = yielded s"
  "workspaceDirectory (fst (fetch ok req s)) = workspaceDirectory s"
  "process_env (fst (fetch ok req s)) = process_env s"
  "issued (fst (fetch ok req s)) = issued s"
  "settled (fst (fetch ok req s)) = settled s"
  "query_throws (fst (fetch ok req s)) = query_throws s"
  by (simp_all add: fst_fetch split: sum.splits option.splits)

lemma fetch_begin_fields:
  "activeConnection (fst (fetch_begin req s)) = activeConnection s"
  "messageQueue (fst (fetch_begin req s)) = messageQueue s"
  "activeStream (fst (fetch_begin req s)) = activeStream s"
  "wire (fst (fetch_begin req s)) = wire s"
  "launched (fst (fetch_begin req s)) = launched s"
  "forwarding (fst (fetch_begin req s)) = forwarding s"
  "yielded (fst (fetch_begin req s)) = yielded s"
  "workspaceDirectory (fst (fetch_begin req s)) = workspaceDirectory s"
  "process_env (fst (fetch_begin req s)) = process_env s"
  "client_id_file (fst (fetch_begin req s)) = client_id_file s"
  "settled (fst (fetch_begin req s)) = settled s"
  "query_throws (fst (fetch_begin req s)) = query_throws s"
  by (simp_all add: fst_fetch_begin fst_config_then split: sum.splits option.splits)

lemma queryConfig_setConfiguration: "queryConfig (fst (setConfiguration ok c s)) = c"
  by (simp add: setConfiguration_def post_config_def fst_fetch
      split: sum.splits option.splits)

lemma getConfiguration_eq:
  "getConfiguration s = JsonResponse 200 (JObj [(''config'', queryConfig s)])"
  by (simp add: getConfiguration_def fetch_def fetch_begin_def get_config_def)

text \<open>A request served on its own is its three steps in a row.\<close>

lemma fetch_steps:
  "fst (fetch ok req s) =
     (case snd (fetch_begin req s) of
        Responded r \<Rightarrow> run s [HttpBegin req]
      | Awaiting data \<Rightarrow>
          run s [HttpBegin req, WriteLands data ok, HttpResume data (succeeded ok)])"
  by (auto simp: fetch_def fetch_begin_def config_then_def Bun_write_def write_lands_def
        resume_def Let_def split: prod.splits sum.splits option.splits progress.splits)

section \<open>Runs of a server whose session has started\<close>

lemmas handler_defs =
  websocket_open_def websocket_close_def handleMessage_def processMessages_def
  stderr_def forward_def catch_error_def generateMessages_def send_def close_def
  write_lands_def resume_def

lemmas request_fields = fetch_fields fetch_begin_fields

lemma activeStream_step:
  "activeStream s \<noteq> None \<Longrightarrow> activeStream (step s ev) = activeStream s"
  by (cases ev)
     (auto simp: request_fields handler_defs Let_def
        split: option.splits WSInputMessage.splits list.splits)

lemma launched_step:
  "activeStream s \<noteq> None \<Longrightarrow> launched (step s ev) = launched s"
  by (cases ev)
     (auto simp: request_fields handler_defs Let_def
        split: option.splits WSInputMessage.splits list.splits)

lemma started_run:
  "activeStream s \<noteq> None \<Longrightarrow>
     activeStream (run s evs) = activeStream s \<and> launched (run s evs) = launched s"
proof (induction evs arbitrary: s)
  case Nil
  then show ?case by simp
next
  case (Cons ev evs)
  from Cons.prems have "activeStream (step s ev) \<noteq> None"
    by (simp add: activeStream_step)
  with Cons.IH [of "step s ev"] Cons.prems show ?case
    by (simp add: activeStream_step launched_step)
qed

lemma options_Inr: "cfg \<noteq> JNull \<Longrightarrow> \<exists>opts. options cwd penv cfg = Inr opts"
  by (cases cfg) (simp_all add: options_def Let_def)

lemma first_open_launches:
  assumes "activeConnection s = None" and "activeStream s = None" and "queryConfig s \<noteq> JNull"
  shows "\<exists>opts. options (workspaceDirectory s) (process_env s) (queryConfig s) = Inr opts
           \<and> launched (websocket_open c s) = launched s @ [opts]"
proof -
  from assms(3) obtain opts
    where "options (workspaceDirectory s) (process_env s) (queryConfig s) = Inr opts"
    using options_Inr by blast
  with assms(1,2) show ?thesis
    by (simp add: websocket_open_def processMessages_def catch_error_def send_def Let_def
        split: option.splits)
qed

section \<open>The object spread as a map\<close>

lemma map_of_js_spread: "map_of (js_spread src tgt) = map_of tgt ++ map_of (rev src)"
proof (induction src arbitrary: tgt)
  case Nil
  then show ?case by (simp add: js_spread_def)
next
  case (Cons p src)
  obtain k v where p: "p = (k, v)" by (cases p)
  have "map_of (js_spread (p # src) tgt) = map_of (js_spread src (AList.update k v tgt))"
    by (simp add: js_spread_def p)
  also have "\<dots> = map_of (AList.update k v tgt) ++ map_of (rev src)"
    by (rule Cons.IH)
  also have "\<dots> = map_of tgt ++ map_of (rev (p # src))"
    by (simp add: p update_conv' map_add_upd_left fun_eq_iff map_add_def split: option.splits)
  finally show ?case .
qed

lemma distinct_js_spread:
  "distinct (map fst tgt) \<Longrightarrow> distinct (map fst (js_spread src tgt))"
  by (induction src arbitrary: tgt) (auto simp: js_spread_def distinct_update)

lemma map_of_rev_distinct: "distinct (map fst xs) \<Longrightarrow> map_of (rev xs) = map_of xs"
  by (simp add: map_of_inject_set distinct_map)

lemma map_of_rev_credential_override:
  "get_property cfg ''anthropicApiKey'' = Inr key \<Longrightarrow>
     map_of (rev (credential_override penv key)) = credential penv cfg"
  by (simp add: credential_override_def credential_def split: option.splits)

lemma options_effective:
  assumes "options cwd penv cfg = Inr opts"
  shows "map_of opts = effective_configuration cwd penv cfg"
proof -
  from assms obtain key where key: "get_property cfg ''anthropicApiKey'' = Inr key"
    and opts: "opts = js_spread (credential_override penv key)
                 (js_spread (map (\<lambda>(k, v). (k, Json v)) (own_properties cfg)) (baseline cwd))"
    by (auto simp: options_def Let_def split: sum.splits)
  have "map_of (rev (map (\<lambda>(k, v). (k, Json v)) (own_properties cfg))) = stored_configuration cfg"
    by (simp add: stored_configuration_def rev_map map_of_map)
  with key show ?thesis
    by (simp add: opts map_of_js_spread map_of_rev_credential_override effective_configuration_def)
qed

lemma env_override_lookup:
  "get_property (JObj (env_override penv k)) name =
     Inr (if name = ''ANTHROPIC_API_KEY'' then Some k
          else map_option JStr (map_of (rev penv) name))"
proof -
  have "distinct (map fst (env_override penv k))"
    by (simp add: env_override_def distinct_js_spread)
  then have "map_of (rev (env_override penv k)) = map_of (env_override penv k)"
    by (rule map_of_rev_distinct)
  also have "\<dots> = (map_option JStr \<circ> map_of (rev penv))(''ANTHROPIC_API_KEY'' \<mapsto> k)"
    by (simp add: env_override_def map_of_js_spread rev_map map_of_map)
  finally show ?thesis by simp
qed

lemma session_start_options:
  assumes "activeConnection s = None" and "activeStream s = None" and "queryConfig s \<noteq> JNull"
  shows "map map_of (launched (websocket_open c s))
           = map map_of (launched s)
               @ [effective_configuration (workspaceDirectory s) (process_env s) (queryConfig s)]"
proof -
  from assms obtain opts
    where "options (workspaceDirectory s) (process_env s) (queryConfig s) = Inr opts"
      and "launched (websocket_open c s) = launched s @ [opts]"
    using first_open_launches by blast
  then show ?thesis
    by (simp add: options_effective)
qed

section \<open>The active connection and the inbound queue along a run\<close>

lemma active_step:
  assumes "activeConnection s = Some a" and "ev \<noteq> WsClose a"
  shows "activeConnection (step s ev) = Some a"
  using assms
  by (cases ev)
     (auto simp: request_fields handler_defs Let_def
        split: option.splits WSInputMessage.splits list.splits)

lemma active_run:
  assumes "activeConnection s = Some a" and "WsClose a \<notin> set evs"
  shows "activeConnection (run s evs) = Some a"
  using assms
proof (induction evs arbitrary: s)
  case Nil
  then show ?case by simp
next
  case (Cons ev evs)
  then have "activeConnection (step s ev) = Some a"
    by (intro active_step) auto
  with Cons show ?case by simp
qed

lemma queue_step:
  "yielded (step s ev) @ messageQueue (step s ev) = yielded s @ messageQueue s @ enqueued [ev]"
proof (cases ev)
  case (WsMessage c m)
  then show ?thesis
    by (cases m) (simp_all add: handleMessage_def split: option.splits)
qed (auto simp: request_fields handler_defs Let_def split: option.splits list.splits sum.splits)

lemma enqueued_Cons: "enqueued (ev # evs) = enqueued [ev] @ enqueued evs"
proof (cases ev)
  case (WsMessage c m)
  then show ?thesis by (cases m) simp_all
qed simp_all

lemma queue_run:
  "yielded (run s evs) @ messageQueue (run s evs) = yielded s @ messageQueue s @ enqueued evs"
proof (induction evs arbitrary: s)
  case Nil
  then show ?case by simp
next
  case (Cons ev evs)
  have "yielded (run s (ev # evs)) @ messageQueue (run s (ev # evs))
      = yielded (step s ev) @ messageQueue (step s ev) @ enqueued evs"
    using Cons.IH [of "step s ev"] by simp
  also have "\<dots> = yielded s @ messageQueue s @ enqueued [ev] @ enqueued evs"
    using queue_step [of s ev] by (metis append_assoc)
  finally show ?case
    using enqueued_Cons [of ev evs] by simp
qed

lemma drain:
  assumes "activeStream s \<noteq> None" and "length (messageQueue s) = n"
  shows "yielded (run s (replicate n ProducerPoll)) = yielded s @ messageQueue s
         \<and> messageQueue (run s (replicate n ProducerPoll)) = []"
  using assms
proof (induction n arbitrary: s)
  case 0
  then show ?case by simp
next
  case (Suc n)
  then obtain m rest where q: "messageQueue s = m # rest"
    by (cases "messageQueue s") auto
  let ?t = "step s ProducerPoll"
  from Suc.prems q have t: "activeStream ?t \<noteq> None" "length (messageQueue ?t) = n"
      "yielded ?t = yielded s @ [m]" "messageQueue ?t = rest"
    by (simp_all add: generateMessages_def)
  from Suc.IH [OF t(1,2)] t(3,4) q show ?case
    by simp
qed

lemma wire_processMessages_prefix:
  "\<exists>ms. wire (processMessages s) = wire s @ ms \<and> Send c WS_connected \<notin> set ms"
  by (auto simp: processMessages_def catch_error_def send_def Let_def
        split: sum.splits option.splits)

lemma acknowledges_iff: "acknowledges s c \<longleftrightarrow> activeConnection s = None"
proof (cases "activeConnection s")
  case None
  show ?thesis
  proof (cases "activeStream s")
    case Some
    with None show ?thesis
      by (simp add: acknowledges_def websocket_open_def send_def Let_def)
  next
    case n: None
    obtain ms where "wire (processMessages (s\<lparr>activeConnection := Some c\<rparr>)) = wire s @ ms"
      using wire_processMessages_prefix [of "s\<lparr>activeConnection := Some c\<rparr>" c] by auto
    with None n show ?thesis
      by (simp add: acknowledges_def websocket_open_def send_def Let_def)
  qed
next
  case (Some a)
  then show ?thesis
    by (simp add: acknowledges_def websocket_open_def send_def close_def)
qed

lemma activeConnection_websocket_open:
  "activeConnection (websocket_open c s)
     = (if activeConnection s = None then Some c else activeConnection s)"
  by (auto simp: handler_defs Let_def split: option.splits sum.splits)

lemma activeConnection_websocket_close:
  "activeConnection (websocket_close c s)
     = (if activeConnection s = Some c then None else activeConnection s)"
  by (simp add: websocket_close_def)

lemma activeConnection_other:
  "(\<forall>c. ev \<noteq> WsOpen c) \<Longrightarrow> (\<forall>c. ev \<noteq> WsClose c) \<Longrightarrow>
     activeConnection (step s ev) = activeConnection s"
  by (cases ev)
     (auto simp: request_fields handler_defs Let_def
        split: option.splits WSInputMessage.splits list.splits sum.splits)

lemma attached_run:
  "A = set_option (activeConnection s) \<Longrightarrow>
     attached A s evs = set_option (activeConnection (run s evs))"
proof (induction A s evs rule: attached.induct)
  case (1 A s)
  then show ?case by simp
next
  case (2 A s c evs)
  have "(if acknowledges s c then insert c A else A) = set_option (activeConnection (step s (WsOpen c)))"
    using "2.prems" by (auto simp: acknowledges_iff activeConnection_websocket_open)
  with "2.IH" show ?case by simp
next
  case (3 A s c evs)
  have "A - {c} = set_option (activeConnection (step s (WsClose c)))"
    using "3.prems" by (auto simp: activeConnection_websocket_close split: if_splits)
  with "3.IH" show ?case by simp
qed (simp_all add: activeConnection_other del: step.simps)

lemma card_set_option: "card (set_option x) \<le> 1"
  by (cases x) simp_all

section \<open>The control endpoint\<close>

text \<open>
  C3. \<open>setConfiguration\<close> replaces the stored configuration wholesale: after
  \<open>setConfiguration c\<close>, whatever the state was and whatever \<open>c\<close> is, \<open>getConfiguration\<close>
  answers 200 with exactly \<open>c\<close>; after \<open>{x: 1}\<close> and then \<open>{y: 2}\<close> it answers \<open>{y: 2}\<close>,
  and the stored configuration has no field \<open>x\<close>.
\<close>

theorem setConfiguration_replaces_wholesale:
  "getConfiguration (fst (setConfiguration ok c s)) = JsonResponse 200 (JObj [(''config'', c)])
   \<and> getConfiguration (fst (setConfiguration ok2 (JObj [(''y'', JNum 2)])
        (fst (setConfiguration ok1 (JObj [(''x'', JNum 1)]) s))))
       = JsonResponse 200 (JObj [(''config'', JObj [(''y'', JNum 2)])])
   \<and> get_property (queryConfig (fst (setConfiguration ok2 (JObj [(''y'', JNum 2)])
        (fst (setConfiguration ok1 (JObj [(''x'', JNum 1)]) s))))) ''x'' = Inr None"
  by (simp add: getConfiguration_eq queryConfig_setConfiguration)

text \<open>
  C4, as the code has it. A body that \<^verbatim>\<open>req.json()\<close> cannot parse is answered with 400
  and nothing changes: not the stored configuration, not the file, no other part of the state.
  Nothing checks that a body that parses is an object: a number, a string, a boolean and an array
  are answered with 200 and become the stored configuration.
\<close>

theorem unparseable_body_rejected:
  "fetch ok (post_config None) s = (s, JsonResponse 400 (JObj [(''error'', JStr ''Invalid JSON'')]))
   \<and> fetch ok (post_config (Some (JNum n))) s
       = (s\<lparr>queryConfig := JNum n\<rparr>,
          JsonResponse 200 (JObj [(''success'', JBool True), (''config'', JNum n)]))
   \<and> fetch ok (post_config (Some (JStr cs))) s
       = (s\<lparr>queryConfig := JStr cs\<rparr>,
          JsonResponse 200 (JObj [(''success'', JBool True), (''config'', JStr cs)]))
   \<and> fetch ok (post_config (Some (JBool b))) s
       = (s\<lparr>queryConfig := JBool b\<rparr>,
          JsonResponse 200 (JObj [(''success'', JBool True), (''config'', JBool b)]))
   \<and> fetch ok (post_config (Some (JArr vs))) s
       = (s\<lparr>queryConfig := JArr vs\<rparr>,
          JsonResponse 200 (JObj [(''success'', JBool True), (''config'', JArr vs)]))"
  by (simp add: fetch_def fetch_begin_def post_config_def config_then_def invalid_json_def
      success_response_def Let_def)

text \<open>
  C4 fails for a body that parses to something other than an object: the body \<^verbatim>\<open>42\<close> is
  not a structured object, and it is answered with 200 and stored.
\<close>

theorem number_body_counterexample:
  "fetch (Written '''') (post_config (Some (JNum 42))) (init ''/home/user/workspace'' [] None)
     = ((init ''/home/user/workspace'' [] None)\<lparr>queryConfig := JNum 42\<rparr>,
        JsonResponse 200 (JObj [(''success'', JBool True), (''config'', JNum 42)]))
   \<and> queryConfig (init ''/home/user/workspace'' [] None) = JObj []
   \<and> queryConfig (fst (fetch (Written '''') (post_config (Some (JNum 42)))
         (init ''/home/user/workspace'' [] None))) = JNum 42"
  by (simp add: fetch_def fetch_begin_def post_config_def config_then_def success_response_def
      init_def Let_def)




text \<open>
  C10. A body that parses but supplies no client identifier (it is \<^verbatim>\<open>null\<close>, or has no
  \<^verbatim>\<open>clientId\<close>), or supplies the empty string, leaves the file as it was, and the stored
  configuration is the body.
\<close>

theorem no_clientId_no_write:
  assumes "config = JNull \<or> get_property config ''clientId'' = Inr None
             \<or> get_property config ''clientId'' = Inr (Some (JStr ''''))"
  shows "client_id_file (fst (setConfiguration ok config s)) = client_id_file s
         \<and> queryConfig (fst (setConfiguration ok config s)) = config"
  using assms
  by (auto simp: setConfiguration_def post_config_def fst_fetch)

theorem no_clientId_no_write_witness:
  "client_id_file (fst (setConfiguration (Written '''') (JObj [(''permissionMode'', JStr ''plan'')])
       (init ''/home/user/workspace'' [] (Some ''abc'')))) = Some ''abc''
   \<and> queryConfig (fst (setConfiguration (Written '''') (JObj [(''permissionMode'', JStr ''plan'')])
       (init ''/home/user/workspace'' [] (Some ''abc'')))) = JObj [(''permissionMode'', JStr ''plan'')]
   \<and> client_id_file (fst (setConfiguration (Written '''') (JObj [(''clientId'', JStr '''')])
       (init ''/home/user/workspace'' [] (Some ''abc'')))) = Some ''abc''
   \<and> queryConfig (fst (setConfiguration (Written '''') (JObj [(''clientId'', JStr '''')])
       (init ''/home/user/workspace'' [] (Some ''abc'')))) = JObj [(''clientId'', JStr '''')]"
  using no_clientId_no_write [of "JObj [(''permissionMode'', JStr ''plan'')]" "Written ''''"
          "init ''/home/user/workspace'' [] (Some ''abc'')"]
        no_clientId_no_write [of "JObj [(''clientId'', JStr '''')]" "Written ''''"
          "init ''/home/user/workspace'' [] (Some ''abc'')"]
  by (simp add: init_def)

section \<open>The agent session\<close>

text \<open>
  C9. The code does not keep to it. A start that fails inside the \<^verbatim>\<open>try\<close> block leaves
  \<^verbatim>\<open>activeStream\<close> \<^verbatim>\<open>null\<close>, so the guard \<^verbatim>\<open>if (!activeStream)\<close> lets the
  open of the next connection call \<^verbatim>\<open>processMessages\<close> again.
  \<^item> After \<^verbatim>\<open>POST /config\<close> with the body \<^verbatim>\<open>null\<close>, the first open starts no session
    (building the options throws, the connection gets an \<open>error\<close> and then \<open>connected\<close>), and
    once an object is posted the open of the second connection starts it.
  \<^item> While the call of \<^verbatim>\<open>query\<close> throws, every open calls it again: two opens, two calls.
\<close>

theorem session_start_retried_after_failure:
  "launched (run (init ''/home/user/workspace'' [] None)
      [Http (Written '''') (post_config (Some JNull)), WsOpen 1]) = []
   \<and> wire (run (init ''/home/user/workspace'' [] None)
      [Http (Written '''') (post_config (Some JNull)), WsOpen 1])
      = [Send 1 (WS_error (NullPropertyMessage ''anthropicApiKey'')), Send 1 WS_connected]
   \<and> length (launched (run (init ''/home/user/workspace'' [] None)
      [Http (Written '''') (post_config (Some JNull)), WsOpen 1, WsClose 1,
       Http (Written '''') (post_config (Some (JObj []))), WsOpen 2])) = 1
   \<and> activeStream (run (init ''/home/user/workspace'' [] None)
      [Http (Written '''') (post_config (Some JNull)), WsOpen 1, WsClose 1,
       Http (Written '''') (post_config (Some (JObj []))), WsOpen 2]) = Some 0
   \<and> length (launched (run (init ''/home/user/workspace'' [] None)
      [QueryFault (Some (Error (Message ''spawn failed''))), WsOpen 1, WsClose 1, WsOpen 2])) = 2
   \<and> activeStream (run (init ''/home/user/workspace'' [] None)
      [QueryFault (Some (Error (Message ''spawn failed''))), WsOpen 1, WsClose 1, WsOpen 2]) = None
   \<and> wire (run (init ''/home/user/workspace'' [] None)
      [QueryFault (Some (Error (Message ''spawn failed''))), WsOpen 1, WsClose 1, WsOpen 2])
      = [Send 1 (WS_error (Message ''spawn failed'')), Send 1 WS_connected,
         Send 2 (WS_error (Message ''spawn failed'')), Send 2 WS_connected]"
  by (simp add: init_def post_config_def fst_fetch handler_defs options_def
      Let_def baseline_def js_spread_def credential_override_def)

text \<open>
  C7. When the first connection opens and the stored configuration is not \<^verbatim>\<open>null\<close>, the
  options handed to \<^verbatim>\<open>query\<close> are, name by name, the effective configuration of the
  specification: the credential override where it defines the name, else the stored configuration
  where it has the field, else the baseline. The baseline holds the workspace path, the permission
  mode \<^verbatim>\<open>bypassPermissions\<close> and partial-message streaming; the credential override is
  there when \<^verbatim>\<open>anthropicApiKey\<close> is truthy, and is the option \<^verbatim>\<open>env\<close>: the
  environment of the process with \<^verbatim>\<open>ANTHROPIC_API_KEY\<close> replaced by the key.
\<close>

theorem effective_configuration_precedence:
  assumes "activeConnection s = None" and "activeStream s = None" and "queryConfig s \<noteq> JNull"
  shows "map map_of (launched (websocket_open c s))
           = map map_of (launched s)
               @ [effective_configuration (workspaceDirectory s) (process_env s) (queryConfig s)]
    \<and> effective_configuration cwd penv cfg name
         = (case credential penv cfg name of
              Some v \<Rightarrow> Some v
            | None \<Rightarrow>
               (case stored_configuration cfg name of
                  Some v \<Rightarrow> Some v
                | None \<Rightarrow> map_of (baseline cwd) name))
    \<and> map_of (baseline cwd) ''cwd'' = Some (Json (JStr cwd))
    \<and> map_of (baseline cwd) ''permissionMode'' = Some (Json (JStr ''bypassPermissions''))
    \<and> map_of (baseline cwd) ''includePartialMessages'' = Some (Json (JBool True))
    \<and> stored_configuration (JObj members) name = map_option Json (map_of (rev members) name)
    \<and> credential penv (JObj members) name
         = (case map_of (rev members) ''anthropicApiKey'' of
              Some key \<Rightarrow>
                if truthy key \<and> name = ''env'' then Some (Json (JObj (env_override penv key)))
                else None
            | None \<Rightarrow> None)
    \<and> get_property (JObj (env_override penv key)) var
         = Inr (if var = ''ANTHROPIC_API_KEY'' then Some key
                else map_option JStr (map_of (rev penv) var))"
proof (intro conjI)
  show "map map_of (launched (websocket_open c s))
           = map map_of (launched s)
               @ [effective_configuration (workspaceDirectory s) (process_env s) (queryConfig s)]"
    using assms by (rule session_start_options)
  show "effective_configuration cwd penv cfg name
         = (case credential penv cfg name of
              Some v \<Rightarrow> Some v
            | None \<Rightarrow>
               (case stored_configuration cfg name of
                  Some v \<Rightarrow> Some v
                | None \<Rightarrow> map_of (baseline cwd) name))"
    by (simp add: effective_configuration_def map_add_def split: option.splits)
  show "stored_configuration (JObj members) name = map_option Json (map_of (rev members) name)"
    by (simp add: stored_configuration_def)
  show "credential penv (JObj members) name
         = (case map_of (rev members) ''anthropicApiKey'' of
              Some key \<Rightarrow>
                if truthy key \<and> name = ''env'' then Some (Json (JObj (env_override penv key)))
                else None
            | None \<Rightarrow> None)"
    by (simp add: credential_def split: option.splits)
  show "get_property (JObj (env_override penv key)) var
         = Inr (if var = ''ANTHROPIC_API_KEY'' then Some key
                else map_option JStr (map_of (rev penv) var))"
    by (rule env_override_lookup)
qed (simp_all add: baseline_def)

theorem effective_configuration_witness:
  "map (\<lambda>opts. (opts ''cwd'', opts ''permissionMode'', opts ''includePartialMessages'', opts ''model''))
     (map map_of (launched (websocket_open 1
        ((init ''/home/user/workspace'' [(''ANTHROPIC_API_KEY'', ''inherited'')] None)
           \<lparr>queryConfig := JObj [(''cwd'', JStr ''/tmp''), (''model'', JStr ''m''),
                                 (''anthropicApiKey'', JStr ''sk'')]\<rparr>))))
   = [(Some (Json (JStr ''/tmp'')), Some (Json (JStr ''bypassPermissions'')),
       Some (Json (JBool True)), Some (Json (JStr ''m'')))]
   \<and> get_property (JObj (env_override [(''ANTHROPIC_API_KEY'', ''inherited'')] (JStr ''sk'')))
        ''ANTHROPIC_API_KEY'' = Inr (Some (JStr ''sk''))"
proof -
  let ?s = "(init ''/home/user/workspace'' [(''ANTHROPIC_API_KEY'', ''inherited'')] None)
           \<lparr>queryConfig := JObj [(''cwd'', JStr ''/tmp''), (''model'', JStr ''m''),
                                 (''anthropicApiKey'', JStr ''sk'')]\<rparr>"
  have a: "activeConnection ?s = None" "activeStream ?s = None" "queryConfig ?s \<noteq> JNull"
    by (simp_all add: init_def)
  from effective_configuration_precedence [OF a, of 1 _ "[(''ANTHROPIC_API_KEY'', ''inherited'')]" _ _ _
      "JStr ''sk''" "''ANTHROPIC_API_KEY''"]
  show ?thesis
    by (simp add: init_def effective_configuration_def stored_configuration_def credential_def
        baseline_def map_add_def)
qed

text \<open>
  C8. Once the session has started, a \<open>setConfiguration\<close> write lands in the store and nowhere
  else: the options the session was launched with are the same after the write and after anything
  that happens later. The configuration is read when the session is constructed: a write made
  before that is the configuration the session starts with.
\<close>

theorem configuration_read_once:
  assumes "activeStream s \<noteq> None"
  shows "queryConfig (fst (setConfiguration ok config s)) = config
         \<and> launched (fst (setConfiguration ok config s)) = launched s
         \<and> launched (run (fst (setConfiguration ok config s)) evs) = launched s
         \<and> (activeConnection t = None \<and> activeStream t = None \<and> config \<noteq> JNull \<longrightarrow>
              map map_of (launched (websocket_open c (fst (setConfiguration ok config t))))
                = map map_of (launched t)
                    @ [effective_configuration (workspaceDirectory t) (process_env t) config])"
proof -
  have a: "activeStream (fst (setConfiguration ok config s)) = activeStream s"
    and b: "launched (fst (setConfiguration ok config s)) = launched s"
    by (simp_all add: setConfiguration_def fetch_fields)
  from a assms have "launched (run (fst (setConfiguration ok config s)) evs)
      = launched (fst (setConfiguration ok config s))"
    using started_run by simp
  with b have c: "launched (run (fst (setConfiguration ok config s)) evs) = launched s"
    by simp
  have d: "map map_of (launched (websocket_open c (fst (setConfiguration ok config t))))
                = map map_of (launched t)
                    @ [effective_configuration (workspaceDirectory t) (process_env t) config]"
    if "activeConnection t = None \<and> activeStream t = None \<and> config \<noteq> JNull"
    using session_start_options [of "fst (setConfiguration ok config t)" c] that
    by (simp add: queryConfig_setConfiguration) (simp add: setConfiguration_def fetch_fields)
  from b c d show ?thesis
    by (simp add: queryConfig_setConfiguration)
qed

theorem configuration_read_once_witness:
  "queryConfig (fst (setConfiguration (Written '''') (JObj [(''model'', JStr ''late'')])
       (run (init ''/home/user/workspace'' [] None) [WsOpen 1])))
     = JObj [(''model'', JStr ''late'')]
   \<and> launched (run (fst (setConfiguration (Written '''') (JObj [(''model'', JStr ''late'')])
       (run (init ''/home/user/workspace'' [] None) [WsOpen 1]))) [WsClose 1, WsOpen 2])
     = launched (run (init ''/home/user/workspace'' [] None) [WsOpen 1])
   \<and> map (\<lambda>opts. map_of opts ''model'')
         (launched (run (init ''/home/user/workspace'' [] None) [WsOpen 1])) = [None]
   \<and> map (\<lambda>opts. opts ''model'')
         (map map_of (launched (websocket_open 1
            (fst (setConfiguration (Written '''') (JObj [(''model'', JStr ''late'')])
               (init ''/home/user/workspace'' [] None))))))
       = [Some (Json (JStr ''late''))]"
proof -
  let ?i = "init ''/home/user/workspace'' [] None"
  let ?s = "run ?i [WsOpen 1]"
  let ?c = "JObj [(''model'', JStr ''late'')]"
  have a: "activeStream ?s \<noteq> None"
    by (simp add: init_def websocket_open_def processMessages_def options_def send_def Let_def)
  have b: "map (\<lambda>opts. map_of opts ''model'') (launched ?s) = [None]"
    by (simp add: init_def websocket_open_def processMessages_def options_def send_def Let_def
        js_spread_def credential_override_def baseline_def)
  have c: "activeConnection ?i = None \<and> activeStream ?i = None \<and> ?c \<noteq> JNull"
    by (simp add: init_def)
  note th = configuration_read_once [OF a, of "Written ''''" ?c "[WsClose 1, WsOpen 2]" ?i 1]
  from th c have "map map_of (launched (websocket_open 1 (fst (setConfiguration (Written '''') ?c ?i))))
      = map map_of (launched ?i)
          @ [effective_configuration (workspaceDirectory ?i) (process_env ?i) ?c]"
    by blast
  then have d: "map (\<lambda>opts. opts ''model'')
         (map map_of (launched (websocket_open 1 (fst (setConfiguration (Written '''') ?c ?i)))))
       = [Some (Json (JStr ''late''))]"
    by (simp add: init_def effective_configuration_def stored_configuration_def credential_def
        baseline_def map_add_def)
  from th b d show ?thesis
    by blast
qed

text \<open>
  C6. While no connection is active, a diagnostic of the runtime and a message of its stream
  leave the state exactly as it was: nothing is sent and nothing is kept. What happens afterwards
  is what would have happened without the event, so a connection that attaches later cannot
  receive it.
\<close>

theorem output_dropped_without_connection:
  assumes "activeConnection s = None"
  shows "step s (Stderr data) = s \<and> step s (StreamMessage message) = s
         \<and> run s (Stderr data # evs) = run s evs
         \<and> run s (StreamMessage message # evs) = run s evs"
  using assms by (simp add: stderr_def forward_def)

theorem output_dropped_witness:
  "wire (run (init ''/home/user/workspace'' [] None)
      [WsOpen 1, WsClose 1, Stderr ''warning'', StreamMessage (JStr ''partial''), WsOpen 2])
     = [Send 1 WS_connected, Send 2 WS_connected]"
proof -
  let ?s = "run (init ''/home/user/workspace'' [] None) [WsOpen 1, WsClose 1]"
  have a: "activeConnection ?s = None"
    by (simp add: init_def websocket_open_def websocket_close_def processMessages_def options_def
        send_def Let_def)
  have b: "wire (run ?s [WsOpen 2]) = [Send 1 WS_connected, Send 2 WS_connected]"
    by (simp add: init_def websocket_open_def websocket_close_def processMessages_def options_def
        send_def Let_def)
  have "run (init ''/home/user/workspace'' [] None)
      [WsOpen 1, WsClose 1, Stderr ''warning'', StreamMessage (JStr ''partial''), WsOpen 2]
      = run (step (step ?s (Stderr ''warning'')) (StreamMessage (JStr ''partial''))) [WsOpen 2]"
    by simp
  also have "\<dots> = run ?s [WsOpen 2]"
    using output_dropped_without_connection [OF a] by simp
  finally show ?thesis
    using b by simp
qed

section \<open>The connection registry\<close>

text \<open>
  C1. Let \<open>a\<close> be the active connection, and let anything happen but the close of \<open>a\<close>. Then
  \<open>a\<close> is still the active connection; an open of another socket \<open>b\<close> at that point sends
  \<open>b\<close> one \<open>error\<close> event, closes it and changes nothing else; and after the close event of
  \<open>b\<close> the active connection is still \<open>a\<close>. Along every run of the server, the connections
  that were answered \<open>connected\<close> and have not closed are exactly the content of the slot
  \<^verbatim>\<open>activeConnection\<close>: never more than one.
\<close>

theorem second_connection_rejected:
  assumes "activeConnection s = Some a" and "WsClose a \<notin> set evs" and "b \<noteq> a"
  shows "activeConnection (run s evs) = Some a
    \<and> run s (evs @ [WsOpen b])
        = (run s evs)\<lparr>wire := wire (run s evs)
            @ [Send b (WS_error (Message ''Server already has an active connection'')), Close b]\<rparr>
    \<and> activeConnection (run s (evs @ [WsOpen b, WsClose b])) = Some a
    \<and> attached {} (init cwd penv file) trace
        = set_option (activeConnection (run (init cwd penv file) trace))
    \<and> card (attached {} (init cwd penv file) trace) \<le> 1"
proof -
  have a: "activeConnection (run s evs) = Some a"
    using assms(1,2) by (rule active_run)
  then have b: "run s (evs @ [WsOpen b])
        = (run s evs)\<lparr>wire := wire (run s evs)
            @ [Send b (WS_error (Message ''Server already has an active connection'')), Close b]\<rparr>"
    by (simp add: run_append websocket_open_def send_def close_def)
  from assms have "WsClose a \<notin> set (evs @ [WsOpen b, WsClose b])"
    by simp
  with assms(1) have c: "activeConnection (run s (evs @ [WsOpen b, WsClose b])) = Some a"
    by (rule active_run)
  have d: "attached {} (init cwd penv file) trace
        = set_option (activeConnection (run (init cwd penv file) trace))"
    by (rule attached_run) (simp add: init_def)
  have e: "card (attached {} (init cwd penv file) trace) \<le> 1"
    unfolding d by (rule card_set_option)
  from a b c d e show ?thesis by blast
qed

theorem second_connection_rejected_witness:
  "activeConnection (run (init ''/home/user/workspace'' [] None) [WsOpen 1]) = Some 1
   \<and> wire (run (init ''/home/user/workspace'' [] None) [WsOpen 1, WsOpen 2])
      = [Send 1 WS_connected,
         Send 2 (WS_error (Message ''Server already has an active connection'')), Close 2]
   \<and> activeConnection (run (init ''/home/user/workspace'' [] None) [WsOpen 1, WsOpen 2, WsClose 2])
      = Some 1
   \<and> attached {} (init ''/home/user/workspace'' [] None) [WsOpen 1, WsOpen 2, WsClose 2] = {1}"
proof -
  let ?i = "init ''/home/user/workspace'' [] None"
  let ?s = "run ?i [WsOpen 1]"
  have a: "activeConnection ?s = Some 1" and w: "wire ?s = [Send 1 WS_connected]"
    by (simp_all add: init_def websocket_open_def processMessages_def options_def send_def Let_def)
  have b: "WsClose 1 \<notin> set []" and c: "(2::nat) \<noteq> 1"
    by simp_all
  note th = second_connection_rejected
    [OF a b c, of "''/home/user/workspace''" "[]" None "[WsOpen 1, WsOpen 2, WsClose 2]"]
  from th have "wire (run ?s ([] @ [WsOpen 2]))
      = wire ?s @ [Send 2 (WS_error (Message ''Server already has an active connection'')), Close 2]"
    by simp
  then have d: "wire (run ?i [WsOpen 1, WsOpen 2])
      = [Send 1 WS_connected,
         Send 2 (WS_error (Message ''Server already has an active connection'')), Close 2]"
    using w by simp
  from th have "activeConnection (run ?s ([] @ [WsOpen 2, WsClose 2])) = Some 1"
    by blast
  then have e: "activeConnection (run ?i [WsOpen 1, WsOpen 2, WsClose 2]) = Some 1"
    by simp
  from th have "attached {} ?i [WsOpen 1, WsOpen 2, WsClose 2]
      = set_option (activeConnection (run ?i [WsOpen 1, WsOpen 2, WsClose 2]))"
    by blast
  with e have f: "attached {} ?i [WsOpen 1, WsOpen 2, WsClose 2] = {1}"
    by simp
  from a d e f show ?thesis
    by blast
qed

section \<open>The message producer\<close>

text \<open>
  C2. At every moment of a run, the messages yielded so far followed by the messages still queued
  are the user messages that arrived, in their order of arrival: the producer yields them in that
  order, each once. A poll that finds the queue empty changes nothing, however many there are
  between two arrivals. Once the session runs, as many polls as the queue is long yield all the
  messages that arrived.
\<close>

theorem producer_fifo:
  "yielded (run (init cwd penv file) evs) @ messageQueue (run (init cwd penv file) evs)
     = enqueued evs
   \<and> (messageQueue s = [] \<longrightarrow> run s (replicate gap ProducerPoll) = s)
   \<and> (activeStream (run (init cwd penv file) evs) \<noteq> None \<longrightarrow>
        yielded (run (init cwd penv file)
          (evs @ replicate (length (messageQueue (run (init cwd penv file) evs))) ProducerPoll))
         = enqueued evs)"
proof (intro conjI impI)
  show a: "yielded (run (init cwd penv file) evs) @ messageQueue (run (init cwd penv file) evs)
     = enqueued evs"
    using queue_run [of "init cwd penv file" evs] by (simp add: init_def)
  show "run s (replicate gap ProducerPoll) = s" if "messageQueue s = []"
    using that by (induction gap) (simp_all add: generateMessages_def)
  assume "activeStream (run (init cwd penv file) evs) \<noteq> None"
  then show "yielded (run (init cwd penv file)
          (evs @ replicate (length (messageQueue (run (init cwd penv file) evs))) ProducerPoll))
         = enqueued evs"
    using drain [of "run (init cwd penv file) evs"] a by (simp add: run_append)
qed

theorem producer_fifo_witness:
  "yielded (run (init ''/home/user/workspace'' [] None)
      ([WsOpen 1, WsMessage 1 (User_message (JStr ''m1'')), ProducerPoll, ProducerPoll, ProducerPoll,
        WsMessage 1 (User_message (JStr ''m2'')), WsClose 1,
        WsMessage 1 (User_message (JStr ''m3''))] @ [ProducerPoll, ProducerPoll]))
     = [JStr ''m1'', JStr ''m2'', JStr ''m3'']
   \<and> run (init ''/home/user/workspace'' [] None) (replicate 3 ProducerPoll)
     = init ''/home/user/workspace'' [] None"
proof -
  let ?i = "init ''/home/user/workspace'' [] None"
  let ?evs = "[WsOpen 1, WsMessage 1 (User_message (JStr ''m1'')), ProducerPoll, ProducerPoll,
        ProducerPoll, WsMessage 1 (User_message (JStr ''m2'')), WsClose 1,
        WsMessage 1 (User_message (JStr ''m3''))]"
  let ?s = "run ?i ?evs"
  have a: "activeStream ?s \<noteq> None" and b: "length (messageQueue ?s) = 2"
    by (simp_all add: init_def handler_defs options_def Let_def)
  have c: "messageQueue ?i = []"
    by (simp add: init_def)
  note th = producer_fifo [of "''/home/user/workspace''" "[]" None ?evs ?i 3]
  from th a
  have "yielded (run ?i (?evs @ replicate (length (messageQueue ?s)) ProducerPoll)) = enqueued ?evs"
    by blast
  then have d: "yielded (run ?i (?evs @ [ProducerPoll, ProducerPoll]))
      = [JStr ''m1'', JStr ''m2'', JStr ''m3'']"
    unfolding b by (simp add: numeral_2_eq_2)
  from th c have "run ?i (replicate 3 ProducerPoll) = ?i"
    by blast
  with d show ?thesis
    by blast
qed

end
